theory Spec2Isabelle
  imports Complex_Main "HOL-Library.Word" "HOL-Library.Multiset"
begin

section \<open>Histogram aggregation (EventHandler)\<close>

subsection \<open>Data model\<close>

text \<open>
  Modelled from the spec: the class \<open>Histogram\<close> is declared outside the sources at hand.
  The specification describes it as a fixed-width vector of numeric buckets whose
  partial contributions combine by element-wise sum; \<open>hist_add\<close> is that sum, and
  equality of histograms is equality of their bucket vectors.
\<close>

type_synonym Histogram = "nat list"

definition hist_add :: "Histogram \<Rightarrow> Histogram \<Rightarrow> Histogram" where
  "hist_add a b = map2 (+) a b"

text \<open>
  \<open>ViewHistogram\<close>: a histogram, the screen area it covers (a \<open>float\<close> in the source,
  a real number here: rounding is not modelled) and the 32-bit frame id (field \<open>id\<close>
  in the source).
\<close>

record ViewHistogram =
  histogram :: Histogram
  area :: real
  id_v :: "32 word"

text \<open>
  \<open>ViewHistogram::operator+=\<close>. The source returns early when both operands are the
  same object; in \<open>gatherHistogram\<close> the right operand is always the local
  \<open>viewHistogram\<close>, never an element of the queue, so that branch is not taken.
\<close>

definition vh_add :: "ViewHistogram \<Rightarrow> ViewHistogram \<Rightarrow> ViewHistogram" where
  "vh_add d hist =
     d\<lparr>histogram := hist_add (histogram d) (histogram hist), area := area d + area hist\<rparr>"

definition isComplete :: "ViewHistogram \<Rightarrow> bool" where
  "isComplete v = (\<bar>1 - area v\<bar> \<le> 1 / 10000)"

text \<open>
  The part of \<open>Config\<close> the aggregator touches: the histogram last handed to
  \<open>setHistogram\<close> (read back by \<open>getHistogram\<close>), the latency, and the sequence
  of histograms passed to \<open>publish\<close>, oldest first. The call of \<open>publish\<close> is
  compiled in with \<open>LIVRE_USE_ZEROEQ\<close>; it stands right after every call of
  \<open>setHistogram\<close>, so the sequence also lists the histograms set.
\<close>

record Config =
  cfg_histogram :: Histogram
  latency :: "32 word"
  published :: "Histogram list"

record EventHandler_Impl =
  config :: Config
  histogramQueue :: "ViewHistogram list"

text \<open>
  Both publishing sites of \<open>gatherHistogram\<close> do the same thing: nothing when the
  configuration already holds the histogram, otherwise \<open>setHistogram\<close> followed by
  \<open>publish\<close>.
\<close>

definition sendHistogram :: "Config \<Rightarrow> Histogram \<Rightarrow> Config" where
  "sendHistogram cfg h =
     (if cfg_histogram cfg \<noteq> h
      then cfg\<lparr>cfg_histogram := h, published := published cfg @ [h]\<rparr>
      else cfg)"

subsection \<open>The gather loop\<close>

text \<open>
  The loop over the queue either returns from \<open>gatherHistogram\<close> (after erasing
  from the iterator to the end) or is left, by \<open>break\<close> or at the end of the queue.
\<close>

datatype loop_exit = Return Config "ViewHistogram list" | Break "ViewHistogram list"

text \<open>
  \<open>gather_loop r viewHistogram cfg pre rest\<close>: the iterator stands at the head of
  \<open>rest\<close>, and \<open>pre\<close> holds the entries before it.

  The reference \<open>data\<close> is bound to the entry under the iterator before
  \<open>emplace\<close> runs. An insertion at the front of a \<open>std::deque\<close> leaves references
  to its elements valid, so \<open>data\<close> still denotes the old entry. An insertion in the
  middle invalidates them; what the stale reference then reads depends on the library
  (the old entry when the front half was shifted, the new one when the back half was).
  The parameter \<open>r\<close> answers that question from the insertion index and the queue
  size: \<open>True\<close> when the reference reads the inserted entry.
\<close>

fun gather_loop ::
  "(nat \<Rightarrow> nat \<Rightarrow> bool) \<Rightarrow> ViewHistogram \<Rightarrow> Config \<Rightarrow> ViewHistogram list \<Rightarrow>
   ViewHistogram list \<Rightarrow> loop_exit" where
  "gather_loop r viewHistogram cfg pre [] = Break pre"
| "gather_loop r viewHistogram cfg pre (d # rest) =
     (if id_v viewHistogram = id_v d then
        (let data = vh_add d viewHistogram in
         if isComplete data then Return (sendHistogram cfg (histogram data)) pre
         else Break (pre @ data # rest))
      else if id_v d < id_v viewHistogram then
        (let data = (if pre \<noteq> [] \<and> r (length pre) (length pre + Suc (length rest))
                     then viewHistogram else d) in
         if isComplete data then Return (sendHistogram cfg (histogram data)) pre
         else Break (pre @ viewHistogram # d # rest))
      else if isComplete d then Return (sendHistogram cfg (histogram d)) pre
      else gather_loop r viewHistogram cfg (pre @ [d]) rest)"

definition gatherHistogram ::
  "(nat \<Rightarrow> nat \<Rightarrow> bool) \<Rightarrow> EventHandler_Impl \<Rightarrow> Histogram \<Rightarrow> real \<Rightarrow> 32 word \<Rightarrow>
   EventHandler_Impl" where
  "gatherHistogram r st h a currentId =
     (if histogramQueue st \<noteq> [] \<and> currentId < id_v (last (histogramQueue st)) then st
      else
        let viewHistogram = \<lparr>histogram = h, area = a, id_v = currentId\<rparr> in
        case gather_loop r viewHistogram (config st) [] (histogramQueue st) of
          Return cfg q \<Rightarrow> st\<lparr>config := cfg, histogramQueue := q\<rparr>
        | Break q \<Rightarrow>
            if q = [] \<and> \<not> isComplete viewHistogram
            then st\<lparr>histogramQueue := q @ [viewHistogram]\<rparr>
            else if isComplete viewHistogram
            then st\<lparr>config := sendHistogram (config st) h, histogramQueue := q\<rparr>
            else if unat (latency (config st) + 1) < length q
            then st\<lparr>histogramQueue := butlast q\<rparr>
            else st\<lparr>histogramQueue := q\<rparr>)"

text \<open>
  A fresh aggregator: nothing queued, nothing published, the configuration's histogram
  empty.
\<close>

definition aggregator :: "32 word \<Rightarrow> EventHandler_Impl" where
  "aggregator l =
     \<lparr>config = \<lparr>cfg_histogram = [], latency = l, published = []\<rparr>, histogramQueue = []\<rparr>"

text \<open>
  The contributions of one frame, each a histogram with its area, handed to
  \<open>gatherHistogram\<close> one after the other.
\<close>

definition deliver ::
  "(nat \<Rightarrow> nat \<Rightarrow> bool) \<Rightarrow> 32 word \<Rightarrow> EventHandler_Impl \<Rightarrow> (Histogram \<times> real) list \<Rightarrow>
   EventHandler_Impl" where
  "deliver r frame st cs = foldl (\<lambda>s c. gatherHistogram r s (fst c) (snd c) frame) st cs"

text \<open>The queue entry of a frame after further contributions were added to it.\<close>

definition accumulate :: "ViewHistogram \<Rightarrow> (Histogram \<times> real) list \<Rightarrow> ViewHistogram" where
  "accumulate e cs =
     foldl (\<lambda>d c. vh_add d \<lparr>histogram = fst c, area = snd c, id_v = id_v e\<rparr>) e cs"

text \<open>
  The entries behind the head of the queue after the comparison of the queue's length
  with the bound: the tail entry is dropped when the queue, head included, is longer
  than the bound.
\<close>

definition trim_tail :: "nat \<Rightarrow> 'a list \<Rightarrow> 'a list" where
  "trim_tail bound t = (if bound < Suc (length t) then butlast t else t)"

section \<open>Ray-cast renderer (RayCastRenderer)\<close>

subsection \<open>Collaborators\<close>

text \<open>
  A brick is named by its \<open>NodeId\<close>. The data source maps it to a \<open>LODNode\<close> with a
  refinement level and a world-space box, and describes the volume: the element type,
  the voxel extents and the depth of the octree (\<open>rootNode.getDepth()\<close>). These
  classes are declared in headers of their own; the records hold what the renderer
  reads of them. \<open>DataType\<close> lists the enumerators named in the renderer's
  \<open>switch\<close>; \<open>DT_OTHER\<close> stands for any other value of the enumeration type.
\<close>

type_synonym NodeId = nat







subsection \<open>Ordering the bricks\<close>







subsection \<open>Renderer state\<close>

definition nVerticesRenderBrick :: nat where "nVerticesRenderBrick = 36"


text \<open>
  The fields of \<open>RayCastRenderer::Impl\<close> that the frame functions read and write.
  \<open>usedTextures\<close> is the pair (last frame, current frame). \<open>drawCalls\<close> records
  the calls of \<open>glDrawArrays\<close> as (first vertex, vertex count); the other OpenGL
  calls leave no trace in the model.
\<close>

record RayCastRenderer_Impl =
  nSamplesPerRay :: "32 word"
  computedSamplesPerRay :: "32 word"
  drawAxis :: bool
  linearFiltering :: bool
  dataSourceRange :: "real \<times> real"
  usedTextures :: "32 word list \<times> 32 word list"
  visibleNodes :: "NodeId list"
  drawCalls :: "(nat \<times> nat) list"


subsection \<open>Frame start\<close>









subsection \<open>Rendering the bricks\<close>

text \<open>
  The texture cache maps a brick to its texture object, or to nothing (the null pointer
  that \<open>renderBrick\<close> would dereference). Of the texture state only the texture id is
  read here; the id that marks an invalid texture is a parameter.
\<close>

record TextureState =
  textureId :: "32 word"

definition renderBrickVBO :: "nat \<Rightarrow> bool \<Rightarrow> bool \<Rightarrow> (nat \<times> nat) list" where
  "renderBrickVBO index front back =
     (if \<not> front \<and> \<not> back then []
      else [(index * nVerticesRenderBrick, nVerticesRenderBrick)])"

definition renderBrick ::
  "32 word \<Rightarrow> (NodeId \<Rightarrow> TextureState option) \<Rightarrow> RayCastRenderer_Impl \<Rightarrow> NodeId \<Rightarrow> nat \<Rightarrow>
   RayCastRenderer_Impl option" where
  "renderBrick INVALID_TEXTURE_ID textureCache st rb index =
     (case textureCache rb of
        None \<Rightarrow> None
      | Some texState \<Rightarrow>
          if textureId texState = INVALID_TEXTURE_ID then Some st
          else Some (st\<lparr>usedTextures :=
                            (fst (usedTextures st), snd (usedTextures st) @ [textureId texState]),
                         visibleNodes := visibleNodes st @ [rb],
                         drawCalls := drawCalls st @ renderBrickVBO index False True\<rparr>))"

fun render_bricks ::
  "32 word \<Rightarrow> (NodeId \<Rightarrow> TextureState option) \<Rightarrow> RayCastRenderer_Impl \<Rightarrow> NodeId list \<Rightarrow>
   nat \<Rightarrow> RayCastRenderer_Impl option" where
  "render_bricks INVALID_TEXTURE_ID textureCache st [] index = Some st"
| "render_bricks INVALID_TEXTURE_ID textureCache st (brick # bricks) index =
     (case renderBrick INVALID_TEXTURE_ID textureCache st brick index of
        None \<Rightarrow> None
      | Some st' \<Rightarrow> render_bricks INVALID_TEXTURE_ID textureCache st' bricks (Suc index))"

definition onFrameRender ::
  "32 word \<Rightarrow> (NodeId \<Rightarrow> TextureState option) \<Rightarrow> RayCastRenderer_Impl \<Rightarrow> NodeId list \<Rightarrow>
   RayCastRenderer_Impl option" where
  "onFrameRender INVALID_TEXTURE_ID textureCache st bricks =
     render_bricks INVALID_TEXTURE_ID textureCache (st\<lparr>visibleNodes := []\<rparr>) bricks 0"

definition getVisibleNodes :: "RayCastRenderer_Impl \<Rightarrow> NodeId list" where
  "getVisibleNodes st = visibleNodes st"

text \<open>A brick whose cached texture state carries a texture id other than the invalid one.\<close>

definition hasValidTexture :: "32 word \<Rightarrow> (NodeId \<Rightarrow> TextureState option) \<Rightarrow> NodeId \<Rightarrow> bool" where
  "hasValidTexture INVALID_TEXTURE_ID textureCache rb =
     (case textureCache rb of
        None \<Rightarrow> False
      | Some texState \<Rightarrow> textureId texState \<noteq> INVALID_TEXTURE_ID)"

section \<open>Properties of the histogram aggregation\<close>

subsection \<open>How a call runs through the queue\<close>

text \<open>
  Entries of newer frames that are not complete are stepped over by the loop.
\<close>

lemma gather_loop_skip:
  "\<forall>d\<in>set skipped. id_v vh < id_v d \<and> \<not> isComplete d \<Longrightarrow>
   gather_loop r vh cfg pre (skipped @ rest) = gather_loop r vh cfg (pre @ skipped) rest"
proof (induction skipped arbitrary: pre)
  case Nil
  then show ?case by simp
next
  case (Cons d ds)
  from Cons.prems have d: "id_v vh < id_v d" "\<not> isComplete d" by simp_all
  from d(1) have ne: "id_v vh \<noteq> id_v d" "\<not> id_v d < id_v vh" by auto
  from Cons.prems have "\<forall>x\<in>set ds. id_v vh < id_v x \<and> \<not> isComplete x" by simp
  from Cons.IH[OF this, of "pre @ [d]"] show ?case using d ne by simp
qed

lemma last_not_newer:
  "id_v e = cid \<Longrightarrow> \<forall>d\<in>set post. id_v d < cid \<Longrightarrow> \<not> cid < id_v (last (pre @ e # post))"
  by (cases post rule: rev_cases) auto

text \<open>
  The call for a frame that has an entry \<open>e\<close> in the queue, behind entries of newer
  frames that are not complete and in front of entries of older frames.
\<close>

lemma gather_merge:
  assumes q: "histogramQueue st = pre @ e # post"
    and pre: "\<forall>d\<in>set pre. cid < id_v d \<and> \<not> isComplete d"
    and e: "id_v e = cid"
    and post: "\<forall>d\<in>set post. id_v d < cid"
  shows "gatherHistogram r st h a cid =
    (let vh = \<lparr>histogram = h, area = a, id_v = cid\<rparr>; m = vh_add e vh in
     if isComplete m
     then st\<lparr>config := sendHistogram (config st) (histogram m), histogramQueue := pre\<rparr>
     else if isComplete vh
     then st\<lparr>config := sendHistogram (config st) h, histogramQueue := pre @ m # post\<rparr>
     else if unat (latency (config st) + 1) < length (pre @ m # post)
     then st\<lparr>histogramQueue := butlast (pre @ m # post)\<rparr>
     else st\<lparr>histogramQueue := pre @ m # post\<rparr>)"
proof -
  let ?vh = "\<lparr>histogram = h, area = a, id_v = cid\<rparr>"
  have chk: "\<not> (histogramQueue st \<noteq> [] \<and> cid < id_v (last (histogramQueue st)))"
    using last_not_newer[OF e post, of pre] q by simp
  have sk: "\<forall>d\<in>set pre. id_v ?vh < id_v d \<and> \<not> isComplete d" using pre by simp
  have loop: "gather_loop r ?vh (config st) [] (pre @ e # post) =
              gather_loop r ?vh (config st) pre (e # post)"
    using gather_loop_skip[OF sk, of r "config st" "[]" "e # post"] by simp
  show ?thesis
    unfolding gatherHistogram_def using chk
    by (simp add: q loop e Let_def)
qed

lemma gather_empty:
  assumes "histogramQueue st = []"
  shows "gatherHistogram r st h a cid =
    (if isComplete \<lparr>histogram = h, area = a, id_v = cid\<rparr>
     then st\<lparr>config := sendHistogram (config st) h, histogramQueue := []\<rparr>
     else st\<lparr>histogramQueue := [\<lparr>histogram = h, area = a, id_v = cid\<rparr>]\<rparr>)"
  using assms by (simp add: gatherHistogram_def)

lemma gather_older_than_tail:
  "histogramQueue st \<noteq> [] \<Longrightarrow> cid < id_v (last (histogramQueue st)) \<Longrightarrow>
   gatherHistogram r st h a cid = st"
  by (simp add: gatherHistogram_def)

lemma id_v_vh_add [simp]: "id_v (vh_add d v) = id_v d"
  by (simp add: vh_add_def)

text \<open>
  The queue is ordered by descending frame id, and every call keeps it so.
\<close>

lemma gather_loop_ordered:
  assumes "sorted_wrt (>) (map id_v (pre @ rest))"
    and "\<forall>d\<in>set pre. id_v vh < id_v d"
  shows "case gather_loop r vh cfg pre rest of
           Return cfg' q \<Rightarrow> sorted_wrt (>) (map id_v q)
         | Break q \<Rightarrow> sorted_wrt (>) (map id_v q)"
  using assms
proof (induction rest arbitrary: pre)
  case Nil
  then show ?case by simp
next
  case (Cons d rest)
  have pre_sorted: "sorted_wrt (>) (map id_v pre)"
    using Cons.prems(1) by (simp add: sorted_wrt_append)
  show ?case
  proof (cases "id_v vh = id_v d")
    case True
    have "sorted_wrt (>) (map id_v (pre @ vh_add d vh # rest))"
      using Cons.prems(1) by (simp add: sorted_wrt_append)
    with True pre_sorted show ?thesis by (simp add: Let_def)
  next
    case False
    show ?thesis
    proof (cases "id_v d < id_v vh")
      case True
      have "sorted_wrt (>) (map id_v (pre @ vh # d # rest))"
        using Cons.prems True by (auto simp: sorted_wrt_append)
      with False True pre_sorted show ?thesis by (simp add: Let_def)
    next
      case gt: False
      with False have "id_v vh < id_v d" by simp
      with Cons.prems(2) have p: "\<forall>x\<in>set (pre @ [d]). id_v vh < id_v x" by simp
      have s: "sorted_wrt (>) (map id_v ((pre @ [d]) @ rest))" using Cons.prems(1) by simp
      from Cons.IH[OF s p] False gt pre_sorted show ?thesis by simp
    qed
  qed
qed

lemma sorted_butlast: "sorted_wrt P xs \<Longrightarrow> sorted_wrt P (butlast xs)"
  by (induction xs) (auto dest: in_set_butlastD)

lemma gather_keeps_queue_ordered:
  assumes "sorted_wrt (>) (map id_v (histogramQueue st))"
  shows "sorted_wrt (>) (map id_v (histogramQueue (gatherHistogram r st h a currentId)))"
proof -
  let ?vh = "\<lparr>histogram = h, area = a, id_v = currentId\<rparr>"
  have "case gather_loop r ?vh (config st) [] (histogramQueue st) of
           Return cfg' q \<Rightarrow> sorted_wrt (>) (map id_v q)
         | Break q \<Rightarrow> sorted_wrt (>) (map id_v q)"
    by (rule gather_loop_ordered) (use assms in simp_all)
  moreover have "sorted_wrt (>) (map id_v (butlast q))" if "sorted_wrt (>) (map id_v q)" for q
    using that sorted_butlast[of "(>)" "map id_v q"] by (simp add: map_butlast)
  ultimately show ?thesis
    using assms
    by (auto simp: gatherHistogram_def Let_def split: loop_exit.splits)
qed

text \<open>
  As long as no contribution is complete by itself, no entry of the queue is complete
  after a call: an entry that a merge completes is erased at once. A complete entry can
  only stay behind when a contribution that is complete by itself is inserted.
\<close>

lemma gather_loop_incomplete:
  assumes "\<forall>d\<in>set (pre @ rest). \<not> isComplete d" and "\<not> isComplete vh"
  shows "case gather_loop r vh cfg pre rest of
           Return cfg' q \<Rightarrow> \<forall>d\<in>set q. \<not> isComplete d
         | Break q \<Rightarrow> \<forall>d\<in>set q. \<not> isComplete d"
  using assms(1)
proof (induction rest arbitrary: pre)
  case Nil
  then show ?case by simp
next
  case (Cons d rest)
  have "\<forall>x\<in>set ((pre @ [d]) @ rest). \<not> isComplete x" using Cons.prems by simp
  from Cons.IH[OF this] Cons.prems assms(2) show ?case
    by (auto simp: Let_def)
qed

lemma gather_keeps_queue_incomplete:
  assumes "\<forall>d\<in>set (histogramQueue st). \<not> isComplete d"
    and "\<not> isComplete \<lparr>histogram = h, area = a, id_v = currentId\<rparr>"
  shows "\<forall>d\<in>set (histogramQueue (gatherHistogram r st h a currentId)). \<not> isComplete d"
proof -
  let ?vh = "\<lparr>histogram = h, area = a, id_v = currentId\<rparr>"
  have "case gather_loop r ?vh (config st) [] (histogramQueue st) of
           Return cfg' q \<Rightarrow> \<forall>d\<in>set q. \<not> isComplete d
         | Break q \<Rightarrow> \<forall>d\<in>set q. \<not> isComplete d"
    by (rule gather_loop_incomplete) (use assms in simp_all)
  then show ?thesis
    using assms
    by (auto simp: gatherHistogram_def Let_def split: loop_exit.splits dest: in_set_butlastD)
qed

subsection \<open>Stale frames\<close>




subsection \<open>Completion by a merge\<close>



subsection \<open>The bound on the queue\<close>

lemma gather_loop_length:
  "case gather_loop r vh cfg pre rest of
     Return cfg' q \<Rightarrow> length q \<le> length pre + length rest
   | Break q \<Rightarrow> length q \<le> Suc (length pre + length rest)"
proof (induction rest arbitrary: pre)
  case Nil
  then show ?case by simp
next
  case (Cons d rest)
  from Cons.IH[of "pre @ [d]"] show ?case
    by (auto simp: Let_def split: loop_exit.splits)
qed

lemma gather_loop_latency:
  "gather_loop r vh cfg pre rest = Return cfg' q \<Longrightarrow> latency cfg' = latency cfg"
proof (induction rest arbitrary: pre)
  case Nil
  then show ?case by simp
next
  case (Cons d rest)
  have lat: "latency (sendHistogram cfg x) = latency cfg" for x
    by (simp add: sendHistogram_def)
  from Cons show ?case
    by (auto simp: Let_def lat split: if_splits)
qed

text \<open>
  A call whose contribution is not complete by itself keeps a queue of at most
  \<open>latency + 1\<close> entries within that bound: this path ends in the comparison of the
  length with \<open>latency + 1\<close>.
\<close>

lemma gather_keeps_bound_unless_complete:
  assumes "length (histogramQueue st) \<le> unat (latency (config st) + 1)"
    and "latency (config st) + 1 \<noteq> 0"
    and "\<not> isComplete \<lparr>histogram = h, area = a, id_v = currentId\<rparr>"
  shows "length (histogramQueue (gatherHistogram r st h a currentId))
         \<le> unat (latency (config (gatherHistogram r st h a currentId)) + 1)"
proof -
  let ?vh = "\<lparr>histogram = h, area = a, id_v = currentId\<rparr>"
  have one: "Suc 0 \<le> unat (latency (config st) + 1)"
    using assms(2) by (simp add: Suc_le_eq unat_gt_0)
  have len: "case gather_loop r ?vh (config st) [] (histogramQueue st) of
     Return cfg' q \<Rightarrow> length q \<le> length (histogramQueue st)
   | Break q \<Rightarrow> length q \<le> Suc (length (histogramQueue st))"
    using gather_loop_length[where r = r and vh = ?vh and cfg = "config st" and pre = "[]"
        and rest = "histogramQueue st"]
    by (cases "gather_loop r ?vh (config st) [] (histogramQueue st)") simp_all
  show ?thesis
  proof (cases "gather_loop r ?vh (config st) [] (histogramQueue st)")
    case (Return cfg' q)
    with len gather_loop_latency[OF Return] assms(1) show ?thesis
      by (auto simp: gatherHistogram_def Let_def)
  next
    case (Break q)
    with len assms(1,3) one show ?thesis
      by (auto simp: gatherHistogram_def Let_def)
  qed
qed

text \<open>
  C4, the code at a failing input. With latency 0 the queue may hold one entry. Frame 5
  is queued with area 0.3; then a contribution for frame 7 arrives whose area is 1.
  It is inserted at the front. The reference \<open>data\<close> still denotes the entry of frame
  5, which is not complete, so nothing is erased; the contribution is then published
  by the block after the loop, which returns before the length of the queue is
  compared with \<open>latency + 1\<close>. The queue is left with two entries.
\<close>

theorem queue_exceeds_bound_after_complete_insert:
  "gatherHistogram r (gatherHistogram r (aggregator 0) [1] (3/10) 5) [2] 1 7
     = \<lparr>config = \<lparr>cfg_histogram = [2], latency = 0, published = [[2]]\<rparr>,
        histogramQueue = [\<lparr>histogram = [2], area = 1, id_v = 7\<rparr>,
                          \<lparr>histogram = [1], area = 3/10, id_v = 5\<rparr>]\<rparr>"
  by (simp add: gatherHistogram_def aggregator_def isComplete_def vh_add_def hist_add_def
      sendHistogram_def)

subsection \<open>Merging into an existing entry\<close>

text \<open>
  C8, the code at a failing input. Where the entries in front of the frame's entry are
  not complete, the contribution is added to the entry (\<open>gather_merge\<close>). After the
  two calls above (here with latency 2), however, the queue holds the complete entry of
  frame 7 in front of the entry of frame 5. A further contribution for frame 5, which
  has an entry, is not added to it: the loop meets the complete entry of frame 7 first,
  erases the whole queue and returns. The contribution is lost together with the entry.
\<close>

theorem existing_entry_erased_not_merged:
  "gatherHistogram r (gatherHistogram r (aggregator 2) [1] (3/10) 5) [2] 1 7
     = \<lparr>config = \<lparr>cfg_histogram = [2], latency = 2, published = [[2]]\<rparr>,
        histogramQueue = [\<lparr>histogram = [2], area = 1, id_v = 7\<rparr>,
                          \<lparr>histogram = [1], area = 3/10, id_v = 5\<rparr>]\<rparr>
   \<and> gatherHistogram r
       \<lparr>config = \<lparr>cfg_histogram = [2], latency = 2, published = [[2]]\<rparr>,
        histogramQueue = [\<lparr>histogram = [2], area = 1, id_v = 7\<rparr>,
                          \<lparr>histogram = [1], area = 3/10, id_v = 5\<rparr>]\<rparr> [4] (3/10) 5
     = \<lparr>config = \<lparr>cfg_histogram = [2], latency = 2, published = [[2]]\<rparr>,
        histogramQueue = []\<rparr>"
  by (simp add: gatherHistogram_def aggregator_def isComplete_def vh_add_def hist_add_def
      sendHistogram_def)

subsection \<open>Late contributions\<close>

text \<open>
  C6, as the code has it. A frame is completed by a merge and its entry discarded; what
  remains of the queue are the entries of newer frames. The next contribution for the
  same frame, if its own area is outside the completeness window, publishes nothing:
  it is ignored when newer frames are queued, and it starts a new entry for the frame
  when the queue is empty.
\<close>

theorem late_partial_publishes_nothing:
  assumes "histogramQueue st = pre @ e # post"
    and "\<forall>d\<in>set pre. frame < id_v d \<and> \<not> isComplete d"
    and "id_v e = frame"
    and "\<forall>d\<in>set post. id_v d < frame"
    and "isComplete (vh_add e \<lparr>histogram = h1, area = a1, id_v = frame\<rparr>)"
    and "\<not> isComplete \<lparr>histogram = h2, area = a2, id_v = frame\<rparr>"
  shows "let st1 = gatherHistogram r st h1 a1 frame;
             st2 = gatherHistogram r st1 h2 a2 frame
         in histogramQueue st1 = pre \<and>
            config st2 = config st1 \<and>
            histogramQueue st2 =
              (if pre = [] then [\<lparr>histogram = h2, area = a2, id_v = frame\<rparr>] else pre)"
proof -
  let ?st1 = "gatherHistogram r st h1 a1 frame"
  have st1: "?st1 = st\<lparr>config := sendHistogram (config st)
                 (histogram (vh_add e \<lparr>histogram = h1, area = a1, id_v = frame\<rparr>)),
               histogramQueue := pre\<rparr>"
    using gather_merge[OF assms(1-4), of r h1 a1] assms(5) by (simp add: Let_def)
  have q1: "histogramQueue ?st1 = pre" by (simp add: st1)
  show ?thesis
  proof (cases "pre = []")
    case True
    with q1 have "histogramQueue ?st1 = []" by simp
    from gather_empty[OF this, of r h2 a2 frame] assms(6) q1 True
    show ?thesis by (simp add: Let_def)
  next
    case False
    then have "last pre \<in> set pre" by simp
    with assms(2) have "frame < id_v (last pre)" by blast
    with False q1 have "gatherHistogram r ?st1 h2 a2 frame = ?st1"
      by (intro gather_older_than_tail) simp_all
    with q1 False show ?thesis by (simp add: Let_def)
  qed
qed

text \<open>
  C6, witness: frame 7 holds area 0.5 and is completed by a second 0.5; a late
  contribution of area 0.5 for frame 7 publishes nothing and is queued.
\<close>

theorem late_partial_publishes_nothing_witness:
  "(let st1 = gatherHistogram (\<lambda>_ _. False)
               \<lparr>config = \<lparr>cfg_histogram = [], latency = 0, published = []\<rparr>,
                histogramQueue = [\<lparr>histogram = [4], area = 1/2, id_v = 7\<rparr>]\<rparr> [2] (1/2) 7;
        st2 = gatherHistogram (\<lambda>_ _. False) st1 [5] (1/2) 7
    in published (config st1) = [[6]] \<and> histogramQueue st1 = [] \<and>
       published (config st2) = [[6]] \<and>
       histogramQueue st2 = [\<lparr>histogram = [5], area = 1/2, id_v = 7\<rparr>])"
proof -
  let ?e = "\<lparr>histogram = [4], area = 1/2, id_v = 7\<rparr>"
  let ?s = "\<lparr>config = \<lparr>cfg_histogram = [], latency = 0, published = []\<rparr>,
             histogramQueue = [?e]\<rparr>"
  have a1: "histogramQueue ?s = [] @ ?e # []" by simp
  have a2: "\<forall>d\<in>set []. (7 :: 32 word) < id_v d \<and> \<not> isComplete d" by simp
  have a3: "id_v ?e = 7" by simp
  have a4: "\<forall>d\<in>set []. id_v d < (7 :: 32 word)" by simp
  have a5: "isComplete (vh_add ?e \<lparr>histogram = [2], area = 1/2, id_v = 7\<rparr>)"
    by (simp add: isComplete_def vh_add_def)
  have a6: "\<not> isComplete \<lparr>histogram = [5], area = 1/2, id_v = 7\<rparr>"
    by (simp add: isComplete_def)
  have st1: "gatherHistogram (\<lambda>_ _. False) ?s [2] (1/2) 7 =
    \<lparr>config = \<lparr>cfg_histogram = [6], latency = 0, published = [[6]]\<rparr>, histogramQueue = []\<rparr>"
    by (simp add: gatherHistogram_def isComplete_def vh_add_def hist_add_def sendHistogram_def)
  show ?thesis
    using late_partial_publishes_nothing[OF a1 a2 a3 a4 a5 a6, of "\<lambda>_ _. False"]
    by (simp add: Let_def st1)
qed

text \<open>
  C6, counterexample to the claim as stated. Two contributions of area 0.5 complete
  frame 7: its histogram is published and the queue is empty. Two late contributions
  for frame 7, again of area 0.5 each, follow: the first is queued, the second completes
  the new entry, and a second histogram is published for frame 7.
\<close>

theorem late_partials_publish_again:
  "gatherHistogram (\<lambda>_ _. False)
       (gatherHistogram (\<lambda>_ _. False) (aggregator 0) [1] (1/2) 7) [2] (1/2) 7
     = \<lparr>config = \<lparr>cfg_histogram = [3], latency = 0, published = [[3]]\<rparr>, histogramQueue = []\<rparr>
   \<and> gatherHistogram (\<lambda>_ _. False)
       (gatherHistogram (\<lambda>_ _. False)
          \<lparr>config = \<lparr>cfg_histogram = [3], latency = 0, published = [[3]]\<rparr>, histogramQueue = []\<rparr>
          [5] (1/2) 7) [6] (1/2) 7
     = \<lparr>config = \<lparr>cfg_histogram = [11], latency = 0, published = [[3], [11]]\<rparr>,
        histogramQueue = []\<rparr>"
  by (simp add: gatherHistogram_def aggregator_def isComplete_def vh_add_def hist_add_def
      sendHistogram_def)

subsection \<open>Order of arrival\<close>





lemma id_v_accumulate [simp]: "id_v (accumulate e cs) = id_v e"
proof -
  have "id_v (foldl (\<lambda>d c. vh_add d \<lparr>histogram = fst c, area = snd c, id_v = f\<rparr>) e cs) = id_v e"
    for f :: "32 word"
    by (induction cs arbitrary: e) (simp_all add: vh_add_def)
  then show ?thesis by (simp add: accumulate_def)
qed








lemma deliver_Nil [simp]: "deliver r f st [] = st"
  by (simp add: deliver_def)






lemma trim_tail_Cons:
  "0 < b \<Longrightarrow> (if b < length (x # t) then butlast (x # t) else x # t) = x # trim_tail b t"
  by (auto simp: trim_tail_def)













section \<open>Properties of the renderer\<close>

subsection \<open>Samples per ray\<close>











subsection \<open>Unsupported element types\<close>



subsection \<open>Visible nodes\<close>

lemma render_bricks_result:
  assumes "\<forall>b\<in>set bricks. textureCache b \<noteq> None"
  shows "\<exists>st'. render_bricks invalid textureCache st bricks i = Some st' \<and>
           visibleNodes st' = visibleNodes st @ filter (hasValidTexture invalid textureCache) bricks \<and>
           drawCalls st' = drawCalls st @
             map (\<lambda>(j, b). (j * nVerticesRenderBrick, nVerticesRenderBrick))
                 (filter (\<lambda>(j, b). hasValidTexture invalid textureCache b) (enumerate i bricks)) \<and>
           usedTextures st' = (fst (usedTextures st), snd (usedTextures st) @
             map (\<lambda>b. textureId (the (textureCache b)))
                 (filter (hasValidTexture invalid textureCache) bricks))"
  using assms
proof (induction bricks arbitrary: st i)
  case Nil
  then show ?case by simp
next
  case (Cons b bs)
  from Cons.prems obtain ts where ts: "textureCache b = Some ts" by auto
  from Cons.prems have rest: "\<forall>x\<in>set bs. textureCache x \<noteq> None" by simp
  show ?case
  proof (cases "textureId ts = invalid")
    case True
    then have step: "renderBrick invalid textureCache st b i = Some st"
      by (simp add: renderBrick_def ts)
    have nv: "\<not> hasValidTexture invalid textureCache b"
      by (simp add: hasValidTexture_def ts True)
    from Cons.IH[OF rest, of st "Suc i"] show ?thesis
      by (simp add: step nv)
  next
    case False
    let ?st1 = "st\<lparr>usedTextures := (fst (usedTextures st), snd (usedTextures st) @ [textureId ts]),
                   visibleNodes := visibleNodes st @ [b],
                   drawCalls := drawCalls st @ renderBrickVBO i False True\<rparr>"
    have step: "renderBrick invalid textureCache st b i = Some ?st1"
      by (simp add: renderBrick_def ts False)
    have v: "hasValidTexture invalid textureCache b"
      by (simp add: hasValidTexture_def ts False)
    from Cons.IH[OF rest, of ?st1 "Suc i"] show ?thesis
      by (simp add: step v ts renderBrickVBO_def)
  qed
qed

text \<open>
  C10: every brick has an object in the texture cache. After \<open>onFrameRender\<close> the
  visible nodes are exactly the bricks of the input whose texture id is valid, in the
  order of the input, whatever the list held before. One draw call is issued for each
  of them, at the vertices of its position in the input (36 per brick); a brick with an
  invalid texture id gets no draw call and does not stop the bricks after it.
\<close>

theorem visible_nodes_are_valid_bricks:
  assumes "\<forall>b\<in>set bricks. textureCache b \<noteq> None"
  shows "\<exists>st'. onFrameRender INVALID_TEXTURE_ID textureCache st bricks = Some st' \<and>
           getVisibleNodes st' = filter (hasValidTexture INVALID_TEXTURE_ID textureCache) bricks \<and>
           drawCalls st' = drawCalls st @
             map (\<lambda>(index, b). (index * 36, 36))
                 (filter (\<lambda>(index, b). hasValidTexture INVALID_TEXTURE_ID textureCache b)
                         (enumerate 0 bricks))"
  using render_bricks_result[OF assms, of INVALID_TEXTURE_ID "st\<lparr>visibleNodes := []\<rparr>" 0]
  by (auto simp add: onFrameRender_def getVisibleNodes_def nVerticesRenderBrick_def)

text \<open>
  C10, witness: bricks 4, 5 and 6, of which 5 has the invalid texture id 0.
\<close>

theorem visible_nodes_are_valid_bricks_witness:
  "\<exists>st'. onFrameRender 0
       (\<lambda>rb. if rb = 5 then Some \<lparr>textureId = 0\<rparr> else Some \<lparr>textureId = 100 + of_nat rb\<rparr>)
       \<lparr>nSamplesPerRay = 0, computedSamplesPerRay = 512, drawAxis = False,
        linearFiltering = False, dataSourceRange = (0, 0), usedTextures = ([], []),
        visibleNodes = [9, 9], drawCalls = []\<rparr> [4, 5, 6] = Some st' \<and>
      getVisibleNodes st' = [4, 6] \<and> drawCalls st' = [(0, 36), (72, 36)]"
proof -
  let ?c = "\<lambda>rb :: NodeId. if rb = 5 then Some \<lparr>textureId = 0\<rparr>
                            else Some \<lparr>textureId = 100 + of_nat rb\<rparr>"
  have h: "\<forall>b\<in>set [4, 5, 6]. ?c b \<noteq> None" by simp
  have e: "enumerate 0 [4, 5, 6 :: nat] = [(0, 4), (1, 5), (2, 6)]"
    by (simp add: enumerate_eq_zip upt_rec)
  show ?thesis
    using visible_nodes_are_valid_bricks[OF h, of 0 "\<lparr>nSamplesPerRay = 0, computedSamplesPerRay = 512, drawAxis = False,
        linearFiltering = False, dataSourceRange = (0, 0), usedTextures = ([], []),
        visibleNodes = [9, 9], drawCalls = []\<rparr>"]
    unfolding e by (simp add: hasValidTexture_def)
qed


subsection \<open>Order of the bricks\<close>













end
